theory Spec2Isabelle
  imports Complex_Main "HOL-Library.Log_Nat"
begin

section \<open>Double-precision rounding\<close>

text \<open>
  The route service computes with the JavaScript type \<open>number\<close>, the IEEE-754 doubles.
  Every arithmetic operation returns its exact result rounded to the nearest number with
  a 53-bit significand, a tie going to the even significand. \<open>dbl\<close> is that rounding on
  the reals: \<open>floor_log2 a\<close> is the exponent of the binade of \<open>a > 0\<close>, the exact value is
  scaled so that its significand is an integer between \<open>2^52\<close> and \<open>2^53\<close>, rounded to
  an integer with ties to even, and scaled back. What is not modelled is the bounded
  exponent range of doubles (a result beyond about 1.8e308 stays finite instead of
  becoming an infinity, and a result below about 2.2e-308 keeps 53 bits) and the sign of
  zero.
\<close>

definition floor_log2 :: "real \<Rightarrow> int" where
  "floor_log2 a = (if 1 \<le> a then bitlen \<lfloor>a\<rfloor> - 1 else - bitlen (\<lceil>1 / a\<rceil> - 1))"

definition round_even :: "real \<Rightarrow> int" where
  "round_even r =
     (let f = \<lfloor>r\<rfloor>; d = r - of_int f
      in if d < 1 / 2 then f else if 1 / 2 < d then f + 1
         else if even f then f else f + 1)"

definition dbl :: "real \<Rightarrow> real" where
  "dbl x =
     (if x = 0 then 0
      else (let e = floor_log2 \<bar>x\<bar> - 52
            in sgn x * of_int (round_even (\<bar>x\<bar> / 2 powi e)) * 2 powi e))"

section \<open>JavaScript numbers\<close>

text \<open>
  A number is a finite value, one of the two infinities or \<open>NaN\<close>. The special values
  are kept because the code can produce them: \<open>x / 0\<close> is an infinity (or \<open>NaN\<close> for
  \<open>0 / 0\<close>) and never raises. Addition, subtraction, multiplication and division of
  finite numbers round their result with \<open>dbl\<close>; negation, \<open>Math.abs\<close>,
  \<open>Math.max\<close>, \<open>Math.min\<close>, \<open>Math.round\<close> and the comparisons are exact.
\<close>

datatype jsnum = Fin real | PInf | NInf | NaN


fun js_neg :: "jsnum \<Rightarrow> jsnum" where
  "js_neg (Fin x) = Fin (- x)"
| "js_neg PInf = NInf"
| "js_neg NInf = PInf"
| "js_neg NaN = NaN"

fun js_add :: "jsnum \<Rightarrow> jsnum \<Rightarrow> jsnum" where
  "js_add (Fin x) (Fin y) = Fin (dbl (x + y))"
| "js_add NaN _ = NaN"
| "js_add _ NaN = NaN"
| "js_add PInf NInf = NaN"
| "js_add NInf PInf = NaN"
| "js_add PInf _ = PInf"
| "js_add _ PInf = PInf"
| "js_add NInf _ = NInf"
| "js_add _ NInf = NInf"

definition js_sub :: "jsnum \<Rightarrow> jsnum \<Rightarrow> jsnum" where
  "js_sub a b = js_add a (js_neg b)"

fun js_mul :: "jsnum \<Rightarrow> jsnum \<Rightarrow> jsnum" where
  "js_mul (Fin x) (Fin y) = Fin (dbl (x * y))"
| "js_mul NaN _ = NaN"
| "js_mul _ NaN = NaN"
| "js_mul PInf (Fin y) = (if y = 0 then NaN else if 0 < y then PInf else NInf)"
| "js_mul NInf (Fin y) = (if y = 0 then NaN else if 0 < y then NInf else PInf)"
| "js_mul (Fin x) PInf = (if x = 0 then NaN else if 0 < x then PInf else NInf)"
| "js_mul (Fin x) NInf = (if x = 0 then NaN else if 0 < x then NInf else PInf)"
| "js_mul PInf PInf = PInf"
| "js_mul NInf NInf = PInf"
| "js_mul PInf NInf = NInf"
| "js_mul NInf PInf = NInf"

text \<open>Division never fails: a zero divisor gives an infinity, or \<open>NaN\<close> for \<open>0 / 0\<close>.\<close>

fun js_div :: "jsnum \<Rightarrow> jsnum \<Rightarrow> jsnum" where
  "js_div (Fin x) (Fin y) =
     (if y \<noteq> 0 then Fin (dbl (x / y))
      else if x = 0 then NaN else if 0 < x then PInf else NInf)"
| "js_div NaN _ = NaN"
| "js_div _ NaN = NaN"
| "js_div (Fin x) PInf = Fin 0"
| "js_div (Fin x) NInf = Fin 0"
| "js_div PInf (Fin y) = (if 0 \<le> y then PInf else NInf)"
| "js_div NInf (Fin y) = (if 0 \<le> y then NInf else PInf)"
| "js_div PInf PInf = NaN"
| "js_div PInf NInf = NaN"
| "js_div NInf PInf = NaN"
| "js_div NInf NInf = NaN"

text \<open>\<open>Math.abs\<close>.\<close>

fun js_abs :: "jsnum \<Rightarrow> jsnum" where
  "js_abs (Fin x) = Fin \<bar>x\<bar>"
| "js_abs PInf = PInf"
| "js_abs NInf = PInf"
| "js_abs NaN = NaN"

text \<open>The comparison \<open>a > b\<close>: false as soon as one side is \<open>NaN\<close>.\<close>

fun js_gt :: "jsnum \<Rightarrow> jsnum \<Rightarrow> bool" where
  "js_gt (Fin x) (Fin y) = (y < x)"
| "js_gt NaN _ = False"
| "js_gt _ NaN = False"
| "js_gt PInf PInf = False"
| "js_gt PInf _ = True"
| "js_gt NInf _ = False"
| "js_gt (Fin x) NInf = True"
| "js_gt (Fin x) PInf = False"

text \<open>The comparison \<open>a <= b\<close>, also false on \<open>NaN\<close>.\<close>

fun js_le :: "jsnum \<Rightarrow> jsnum \<Rightarrow> bool" where
  "js_le (Fin x) (Fin y) = (x \<le> y)"
| "js_le NaN _ = False"
| "js_le _ NaN = False"
| "js_le NInf _ = True"
| "js_le _ PInf = True"
| "js_le PInf _ = False"
| "js_le (Fin x) NInf = False"




text \<open>\<open>Math.max\<close> and \<open>Math.min\<close> of two arguments: \<open>NaN\<close> if either is.\<close>

definition js_max :: "jsnum \<Rightarrow> jsnum \<Rightarrow> jsnum" where
  "js_max a b = (if a = NaN \<or> b = NaN then NaN else if js_gt b a then b else a)"

definition js_min :: "jsnum \<Rightarrow> jsnum \<Rightarrow> jsnum" where
  "js_min a b = (if a = NaN \<or> b = NaN then NaN else if js_gt a b then b else a)"

text \<open>\<open>Math.round\<close>: to the nearest integer, a half rounding up.\<close>

fun js_round :: "jsnum \<Rightarrow> jsnum" where
  "js_round (Fin x) = Fin (of_int \<lfloor>x + 1 / 2\<rfloor>)"
| "js_round a = a"

text \<open>
  An array read \<open>xs[k]\<close> with a number as index: the element when \<open>k\<close> is an
  integer within range, \<open>undefined\<close> (here \<open>None\<close>) otherwise, without any error.
\<close>

fun js_index :: "'a list \<Rightarrow> jsnum \<Rightarrow> 'a option" where
  "js_index xs (Fin r) =
     (if r = of_int \<lfloor>r\<rfloor> \<and> 0 \<le> r \<and> nat \<lfloor>r\<rfloor> < length xs
      then Some (xs ! nat \<lfloor>r\<rfloor>) else None)"
| "js_index xs _ = None"

section \<open>Data model (types/index.ts)\<close>

record RoutePoint =
  lat :: jsnum
  lng :: jsnum
  elevation :: jsnum
  distance :: jsnum

record RouteStats =
  totalDistance :: jsnum
  totalElevationGain :: jsnum
  totalElevationLoss :: jsnum
  maxElevation :: jsnum
  minElevation :: jsnum
  maxGrade :: jsnum
  minGrade :: jsnum
  averageGrade :: jsnum
  estimatedTime :: jsnum

section \<open>Statistics aggregator (routeService.ts, calculateRouteStats)\<close>

text \<open>The local variables that the loop of \<open>calculateRouteStats\<close> updates.\<close>

record StatsVars =
  v_elevationGain :: jsnum
  v_elevationLoss :: jsnum
  v_maxElevation :: jsnum
  v_minElevation :: jsnum
  v_maxGrade :: jsnum
  v_minGrade :: jsnum
  v_totalGrade :: jsnum
  v_gradeCount :: nat

text \<open>The grade part of the loop body, run after the elevation part.\<close>

definition grade_step :: "jsnum \<Rightarrow> RoutePoint \<Rightarrow> RoutePoint \<Rightarrow> StatsVars \<Rightarrow> StatsVars" where
  "grade_step elevationChange previous current v =
     (let distanceChange = js_sub (distance current) (distance previous) in
      if js_gt distanceChange (Fin 0) then
        (let grade = js_mul (js_div elevationChange distanceChange) (Fin 100) in
         v\<lparr>v_maxGrade := js_max (v_maxGrade v) grade,
           v_minGrade := js_min (v_minGrade v) grade,
           v_totalGrade := js_add (v_totalGrade v) (js_abs grade),
           v_gradeCount := v_gradeCount v + 1\<rparr>)
      else v)"

text \<open>One iteration of the loop, for \<open>previous = points[i - 1]\<close> and \<open>current = points[i]\<close>.\<close>

definition stats_step :: "RoutePoint \<Rightarrow> RoutePoint \<Rightarrow> StatsVars \<Rightarrow> StatsVars" where
  "stats_step previous current v =
     (let v1 = v\<lparr>v_maxElevation := js_max (v_maxElevation v) (elevation current),
                 v_minElevation := js_min (v_minElevation v) (elevation current)\<rparr>;
          elevationChange = js_sub (elevation current) (elevation previous);
          v2 = (if js_gt elevationChange (Fin 0)
                then v1\<lparr>v_elevationGain := js_add (v_elevationGain v1) elevationChange\<rparr>
                else v1\<lparr>v_elevationLoss := js_add (v_elevationLoss v1) (js_abs elevationChange)\<rparr>)
      in grade_step elevationChange previous current v2)"

text \<open>The loop \<open>for (i = 1; i < points.length; i++)\<close>, over the points from index i on.\<close>

fun stats_loop :: "RoutePoint \<Rightarrow> RoutePoint list \<Rightarrow> StatsVars \<Rightarrow> StatsVars" where
  "stats_loop previous [] v = v"
| "stats_loop previous (current # rest) v = stats_loop current rest (stats_step previous current v)"

definition calculateRouteStats :: "RoutePoint list \<Rightarrow> RouteStats" where
  "calculateRouteStats points =
     (case points of
        [] \<Rightarrow>
          \<lparr>totalDistance = Fin 0, totalElevationGain = Fin 0, totalElevationLoss = Fin 0,
           maxElevation = Fin 0, minElevation = Fin 0, maxGrade = Fin 0, minGrade = Fin 0,
           averageGrade = Fin 0, estimatedTime = Fin 0\<rparr>
      | p0 # rest \<Rightarrow>
          (let v = stats_loop p0 rest
                     \<lparr>v_elevationGain = Fin 0, v_elevationLoss = Fin 0,
                      v_maxElevation = elevation p0, v_minElevation = elevation p0,
                      v_maxGrade = Fin 0, v_minGrade = Fin 0,
                      v_totalGrade = Fin 0, v_gradeCount = 0\<rparr>;
               totalDistance = distance (last points);
               averageGrade = (if 0 < v_gradeCount v
                               then js_div (v_totalGrade v) (Fin (real (v_gradeCount v)))
                               else Fin 0);
               baseTime = js_mul (js_div totalDistance (Fin 1000)) (Fin 15);
               elevationTime = js_mul (js_div (v_elevationGain v) (Fin 100)) (Fin 10);
               estimatedTime = js_add baseTime elevationTime
           in \<lparr>totalDistance = totalDistance,
               totalElevationGain = v_elevationGain v,
               totalElevationLoss = v_elevationLoss v,
               maxElevation = v_maxElevation v,
               minElevation = v_minElevation v,
               maxGrade = v_maxGrade v,
               minGrade = v_minGrade v,
               averageGrade = averageGrade,
               estimatedTime = estimatedTime\<rparr>))"

section \<open>Path sampler (routeService.ts, sampleRoutePoints)\<close>

text \<open>
  The loop \<open>for (i = 0; i < sampleCount; i++)\<close> that pushes \<open>path[Math.round(i * interval)]\<close>.
  The pushed element is an option, since an array read outside the range is \<open>undefined\<close>.
\<close>

function sample_loop :: "'a list \<Rightarrow> jsnum \<Rightarrow> nat \<Rightarrow> nat \<Rightarrow> 'a option list \<Rightarrow> 'a option list" where
  "sample_loop path interval sampleCount i samples =
     (if i < sampleCount then
        (let index = js_round (js_mul (Fin (real i)) interval)
         in sample_loop path interval sampleCount (i + 1) (samples @ [js_index path index]))
      else samples)"
  by pat_completeness auto
termination
  by (relation "measure (\<lambda>(path, interval, sampleCount, i, samples). sampleCount - i)") auto

declare sample_loop.simps [simp del]

text \<open>The sample count is a count of points, a natural number.\<close>

definition sampleRoutePoints :: "'a list \<Rightarrow> nat \<Rightarrow> 'a option list" where
  "sampleRoutePoints path sampleCount =
     (if length path \<le> sampleCount then map Some path
      else
        (let samples = [];
             interval = js_div (js_sub (Fin (real (length path))) (Fin 1))
                               (js_sub (Fin (real sampleCount)) (Fin 1))
         in sample_loop path interval sampleCount 0 samples))"

section \<open>Elevation enricher (routeService.ts, getElevationData and createRoutePoints)\<close>

text \<open>
  The types of the maps library that the service reads: a location with its two
  coordinates, and one elevation result.
\<close>

record LatLng =
  ll_lat :: jsnum
  ll_lng :: jsnum

record ElevationResult =
  location :: LatLng
  er_elevation :: jsnum

text \<open>
  The elevation service of the maps library is outside the repository. It is a parameter:
  its answer to the n-th call is \<open>es_respond n\<close>, a result array (\<open>None\<close> for
  \<open>null\<close>) with a status string, and \<open>es_calls\<close> counts the calls made so far.
\<close>

record ElevationService =
  es_calls :: nat
  es_respond :: "nat \<Rightarrow> LatLng list \<Rightarrow> ElevationResult list option \<times> string"

definition getElevationForLocations ::
  "ElevationService \<Rightarrow> LatLng list \<Rightarrow> (ElevationResult list option \<times> string) \<times> ElevationService" where
  "getElevationForLocations svc locations =
     (es_respond svc (es_calls svc) locations, svc\<lparr>es_calls := es_calls svc + 1\<rparr>)"

datatype Error = Error string

text \<open>The promise of \<open>getElevationData\<close>: \<open>Inr\<close> when resolved, \<open>Inl\<close> when rejected.\<close>

definition getElevationData ::
  "ElevationService \<Rightarrow> LatLng list \<Rightarrow> (Error + ElevationResult list) \<times> ElevationService" where
  "getElevationData svc locations =
     (case getElevationForLocations svc locations of
        ((results, status), svc') \<Rightarrow>
          (case results of
             Some rs \<Rightarrow>
               if status = ''OK'' then (Inr rs, svc')
               else (Inl (Error (''Elevation request failed: '' @ status)), svc')
           | None \<Rightarrow> (Inl (Error (''Elevation request failed: '' @ status)), svc')))"

text \<open>
  The \<open>forEach\<close> of \<open>createRoutePoints\<close>: \<open>prev\<close> is \<open>elevationData[index - 1]\<close>, absent at
  index 0, and \<open>totalDistance0\<close> is the variable \<open>totalDistance\<close> before the step. The distance function
  \<open>computeDistanceBetween\<close> of the maps library is the parameter \<open>between\<close>.
\<close>

fun route_points_loop ::
  "(LatLng \<Rightarrow> LatLng \<Rightarrow> jsnum) \<Rightarrow> jsnum \<Rightarrow> ElevationResult option \<Rightarrow> ElevationResult list
     \<Rightarrow> RoutePoint list" where
  "route_points_loop between totalDistance0 prev [] = []"
| "route_points_loop between totalDistance0 prev (result # rest) =
     (let totalDistance' = (case prev of
                      None \<Rightarrow> totalDistance0
                    | Some prevPoint \<Rightarrow> js_add totalDistance0 (between (location prevPoint) (location result)))
      in \<lparr>lat = ll_lat (location result), lng = ll_lng (location result),
           elevation = er_elevation result, distance = totalDistance'\<rparr>
         # route_points_loop between totalDistance' (Some result) rest)"

text \<open>The second argument of the source, \<open>fullPath\<close>, is never read.\<close>

definition createRoutePoints ::
  "(LatLng \<Rightarrow> LatLng \<Rightarrow> jsnum) \<Rightarrow> ElevationResult list \<Rightarrow> LatLng list \<Rightarrow> RoutePoint list" where
  "createRoutePoints between elevationData fullPath = route_points_loop between (Fin 0) None elevationData"

section \<open>Difficulty classifier (routeService.ts, calculateDifficulty)\<close>

datatype Difficulty = easy | moderate | hard | extreme

text \<open>The order of the tiers: easy, moderate, hard, extreme.\<close>

fun tier :: "Difficulty \<Rightarrow> nat" where
  "tier easy = 0"
| "tier moderate = 1"
| "tier hard = 2"
| "tier extreme = 3"

definition calculateDifficulty :: "RouteStats \<Rightarrow> Difficulty" where
  "calculateDifficulty stats =
     (let distance = js_div (totalDistance stats) (Fin 1000);
          elevationGain = totalElevationGain stats;
          maxGrade = js_abs (maxGrade stats);
          score = (0::nat);
          score = (if js_gt distance (Fin 20) then score + 3
                   else if js_gt distance (Fin 10) then score + 2
                   else if js_gt distance (Fin 5) then score + 1 else score);
          score = (if js_gt elevationGain (Fin 1000) then score + 3
                   else if js_gt elevationGain (Fin 500) then score + 2
                   else if js_gt elevationGain (Fin 200) then score + 1 else score);
          score = (if js_gt maxGrade (Fin 20) then score + 3
                   else if js_gt maxGrade (Fin 15) then score + 2
                   else if js_gt maxGrade (Fin 10) then score + 1 else score)
      in if 7 \<le> score then extreme
         else if 5 \<le> score then hard
         else if 3 \<le> score then moderate
         else easy)"

section \<open>Alert derivers (routeService.ts, getTrafficInfo; SafetyAlerts.tsx, getSafetyScore)\<close>

text \<open>\<open>Array.prototype.filter\<close> with a callback that also reads the index.\<close>

definition filter_indexed :: "('a \<Rightarrow> nat \<Rightarrow> bool) \<Rightarrow> 'a list \<Rightarrow> 'a list" where
  "filter_indexed f xs = map fst (filter (\<lambda>(x, index). f x index) (zip xs [0..<length xs]))"

text \<open>The array \<open>steepSections\<close> of \<open>getTrafficInfo\<close>. The division has no guard.\<close>

definition steepSections :: "RoutePoint list \<Rightarrow> RoutePoint list" where
  "steepSections routePoints =
     filter_indexed
       (\<lambda>point index.
          if index = 0 then False
          else
            (let prevPoint = routePoints ! (index - 1);
                 elevationChange = js_sub (elevation point) (elevation prevPoint);
                 distance = js_sub (distance point) (distance prevPoint);
                 grade = js_abs (js_mul (js_div elevationChange distance) (Fin 100))
             in js_gt grade (Fin 15)))
       routePoints"

definition getTrafficInfo :: "RoutePoint list \<Rightarrow> string list" where
  "getTrafficInfo routePoints =
     (let alerts = [];
          alerts = (if 50 < length routePoints
                    then alerts @ [''Heavy traffic expected during peak hours''] else alerts);
          alerts = (if 5 < length (steepSections routePoints)
                    then alerts @ [''Multiple steep sections - allow extra time''] else alerts)
      in alerts)"

text \<open>\<open>getSafetyScore\<close> reads \<open>routeData.stats\<close>; its score is an integer.\<close>

definition getSafetyScore :: "RouteStats \<Rightarrow> int" where
  "getSafetyScore stats =
     (let score = (100::int);
          score = (if js_gt (maxGrade stats) (Fin 20) then score - 20
                   else if js_gt (maxGrade stats) (Fin 15) then score - 15
                   else if js_gt (maxGrade stats) (Fin 10) then score - 10 else score);
          score = (if js_gt (totalElevationGain stats) (Fin 1000) then score - 15
                   else if js_gt (totalElevationGain stats) (Fin 500) then score - 10 else score);
          score = (if js_gt (totalDistance stats) (Fin 20000) then score - 10
                   else if js_gt (totalDistance stats) (Fin 10000) then score - 5 else score)
      in max score 0)"

section \<open>Auxiliary notions for the statements\<close>

text \<open>The consecutive pairs \<open>(xs[i], xs[i + 1])\<close> of a sequence.\<close>

fun segments :: "'a list \<Rightarrow> ('a \<times> 'a) list" where
  "segments (p # c # rest) = (p, c) # segments (c # rest)"
| "segments _ = []"

text \<open>The three additive factors of the difficulty score, and the final thresholds.\<close>

definition score_factor :: "real \<Rightarrow> real \<Rightarrow> real \<Rightarrow> jsnum \<Rightarrow> nat" where
  "score_factor t1 t2 t3 x =
     (if js_gt x (Fin t1) then 3 else if js_gt x (Fin t2) then 2
      else if js_gt x (Fin t3) then 1 else 0)"

definition classify_score :: "nat \<Rightarrow> Difficulty" where
  "classify_score score =
     (if 7 \<le> score then extreme else if 5 \<le> score then hard
      else if 3 \<le> score then moderate else easy)"

text \<open>A number that stays the same or is increased.\<close>

definition not_decreased :: "jsnum \<Rightarrow> jsnum \<Rightarrow> bool" where
  "not_decreased a b = (a = b \<or> js_gt b a)"

text \<open>The successive values of a running total, and the lengths of the segments of a path.\<close>

fun running_totals :: "jsnum \<Rightarrow> jsnum list \<Rightarrow> jsnum list" where
  "running_totals t [] = []"
| "running_totals t (d # ds) = js_add t d # running_totals (js_add t d) ds"

definition segment_lengths :: "(LatLng \<Rightarrow> LatLng \<Rightarrow> jsnum) \<Rightarrow> ElevationResult list \<Rightarrow> jsnum list" where
  "segment_lengths between rs = map (\<lambda>(a, b). between (location a) (location b)) (segments rs)"

section \<open>Example inputs\<close>

definition route_point :: "real \<Rightarrow> real \<Rightarrow> RoutePoint" where
  "route_point e d = \<lparr>lat = Fin 0, lng = Fin 0, elevation = Fin e, distance = Fin d\<rparr>"




definition stationary_route :: "RoutePoint list" where
  "stationary_route = [route_point 100 0, route_point 120 0, route_point 90 0]"

definition long_steep_stats :: "real \<Rightarrow> RouteStats" where
  "long_steep_stats g =
     \<lparr>totalDistance = Fin 25000, totalElevationGain = Fin 1200, totalElevationLoss = Fin 0,
      maxElevation = Fin 1200, minElevation = Fin 0, maxGrade = Fin g, minGrade = Fin 0,
      averageGrade = Fin 0, estimatedTime = Fin 0\<rparr>"

definition stalled_climb_route :: "RoutePoint list" where
  "stalled_climb_route =
     [route_point 0 0, route_point 1 0, route_point 2 0, route_point 3 0,
      route_point 4 0, route_point 5 0, route_point 6 0]"

definition location_at :: "real \<Rightarrow> real \<Rightarrow> LatLng" where
  "location_at la lo = \<lparr>ll_lat = Fin la, ll_lng = Fin lo\<rparr>"

definition elevation_at :: "real \<Rightarrow> real \<Rightarrow> real \<Rightarrow> ElevationResult" where
  "elevation_at la lo e = \<lparr>location = location_at la lo, er_elevation = Fin e\<rparr>"

text \<open>A distance function for the examples: 111 km for each degree of latitude.\<close>

definition meridian_distance :: "LatLng \<Rightarrow> LatLng \<Rightarrow> jsnum" where
  "meridian_distance a b = js_mul (js_abs (js_sub (ll_lat b) (ll_lat a))) (Fin 111000)"

definition three_results :: "ElevationResult list" where
  "three_results = [elevation_at 0 0 100, elevation_at 1 0 150, elevation_at 3 0 100]"

text \<open>Two elevation services: one that refuses, one that answers with a single result.\<close>

definition refusing_service :: ElevationService where
  "refusing_service = \<lparr>es_calls = 0, es_respond = (\<lambda>n locations. (None, ''OVER_QUERY_LIMIT''))\<rparr>"

definition short_answer_service :: ElevationService where
  "short_answer_service =
     \<lparr>es_calls = 0, es_respond = (\<lambda>n locations. (Some [elevation_at 0 0 100], ''OK''))\<rparr>"

definition ten_points :: "nat list" where
  "ten_points = [0, 1, 2, 3, 4, 5, 6, 7, 8, 9]"


definition sixty_two_points :: "nat list" where
  "sixty_two_points = [0..<62]"

section \<open>Properties of the rounding\<close>

text \<open>
  The exponent found by \<open>floor_log2\<close> is the one of the binade; rounding is monotone,
  keeps the sign, is the identity on every integer multiple of a power of two whose
  multiplier is below \<open>2^53\<close> (so on its own results), and its relative error is at
  most \<open>2^-53\<close>.
\<close>

lemma two_powi_neg: "0 \<le> m \<Longrightarrow> (2::real) powi (- m) = 1 / 2 ^ nat m"
  by (simp add: power_int_minus_divide power_int_nonneg_exp)

lemma floor_log2_bounds:
  assumes "0 < a"
  shows "2 powi (floor_log2 a) \<le> a" and "a < 2 powi (floor_log2 a + 1)"
proof -
  have "2 powi (floor_log2 a) \<le> a \<and> a < 2 powi (floor_log2 a + 1)"
  proof (cases "1 \<le> a")
    case True
    define n where "n = \<lfloor>a\<rfloor>"
    from True have n: "0 < n" by (simp add: n_def)
    from bitlen_bounds [OF n]
    have b: "2 ^ nat (bitlen n - 1) \<le> n" "n < 2 ^ nat (bitlen n)" by simp_all
    from n have b1: "1 \<le> bitlen n" by (simp add: bitlen_alt_def)
    have k: "floor_log2 a = bitlen n - 1" using True by (simp add: floor_log2_def n_def)
    have "(2::real) powi (bitlen n - 1) = of_int (2 ^ nat (bitlen n - 1))"
      using b1 by (simp add: power_int_nonneg_exp)
    also have "\<dots> \<le> of_int n" using b(1) by (simp only: of_int_le_iff)
    also have "\<dots> \<le> a" by (simp add: n_def)
    finally have lo: "2 powi (bitlen n - 1) \<le> a" .
    have "n + 1 \<le> 2 ^ nat (bitlen n)" using b(2) by simp
    then have "of_int (n + 1) \<le> (of_int (2 ^ nat (bitlen n)) :: real)"
      by (simp only: of_int_le_iff)
    moreover have "a < of_int (n + 1)" by (simp add: n_def)
    ultimately have "a < (of_int (2 ^ nat (bitlen n)) :: real)" by linarith
    also have "\<dots> = 2 powi (bitlen n - 1 + 1)"
      using b1 by (simp add: power_int_nonneg_exp)
    finally show ?thesis using lo k by simp
  next
    case False
    define u where "u = 1 / a"
    define n where "n = \<lceil>u\<rceil> - 1"
    from False assms have u1: "1 < u" by (simp add: u_def)
    then have "2 \<le> \<lceil>u\<rceil>" by linarith
    then have n: "0 < n" by (simp add: n_def)
    from bitlen_bounds [OF n]
    have b: "2 ^ nat (bitlen n - 1) \<le> n" "n < 2 ^ nat (bitlen n)" by simp_all
    from n have b1: "1 \<le> bitlen n" by (simp add: bitlen_alt_def)
    have k: "floor_log2 a = - bitlen n" using False by (simp add: floor_log2_def n_def u_def)
    have nu: "of_int n < u" "u \<le> of_int n + 1" by (simp_all add: n_def) linarith+
    have "(2::real) ^ nat (bitlen n - 1) \<le> of_int n"
      using b(1) by (metis of_int_le_iff of_int_numeral of_int_power)
    with nu have lo: "(2::real) ^ nat (bitlen n - 1) < u" by linarith
    have "n + 1 \<le> 2 ^ nat (bitlen n)" using b(2) by simp
    then have "of_int (n + 1) \<le> (2::real) ^ nat (bitlen n)"
      by (metis of_int_le_iff of_int_numeral of_int_power)
    with nu have hi: "u \<le> (2::real) ^ nat (bitlen n)" by simp
    have a: "a = 1 / u" using assms by (simp add: u_def)
    have "(2::real) powi (- bitlen n) = 1 / 2 ^ nat (bitlen n)"
      by (rule two_powi_neg) (use b1 in simp)
    also have "\<dots> \<le> 1 / u" using hi u1 by (simp add: frac_le)
    finally have l: "2 powi (- bitlen n) \<le> a" using a by simp
    have "a < 1 / 2 ^ nat (bitlen n - 1)"
      unfolding a using lo by (simp add: frac_less2)
    also have "\<dots> = (2::real) powi (- (bitlen n - 1))"
      by (rule two_powi_neg [symmetric]) (use b1 in simp)
    also have "- (bitlen n - 1) = - bitlen n + 1" by simp
    finally have "a < 2 powi (- bitlen n + 1)" .
    with l k show ?thesis by simp
  qed
  then show "2 powi (floor_log2 a) \<le> a" and "a < 2 powi (floor_log2 a + 1)" by simp_all
qed

lemma two_powi_less_D:
  assumes "(2::real) powi m < 2 powi n"
  shows "m < n"
proof (rule ccontr)
  assume "\<not> m < n"
  then have "n \<le> m" by simp
  then have "(2::real) powi n \<le> 2 powi m" by (rule power_int_increasing) simp
  with assms show False by simp
qed

lemma floor_log2_unique:
  assumes "2 powi k \<le> a" "a < 2 powi (k + 1)"
  shows "floor_log2 a = k"
proof -
  have pos: "0 < a" using assms(1) by (rule less_le_trans [rotated]) simp
  note b = floor_log2_bounds [OF pos]
  have "(2::real) powi (floor_log2 a) < 2 powi (k + 1)" using b(1) assms(2) by linarith
  then have 1: "floor_log2 a < k + 1" by (rule two_powi_less_D)
  have "(2::real) powi k < 2 powi (floor_log2 a + 1)" using b(2) assms(1) by linarith
  then have 2: "k < floor_log2 a + 1" by (rule two_powi_less_D)
  from 1 2 show ?thesis by simp
qed

lemma round_even_of_int [simp]: "round_even (of_int z) = z"
  by (simp add: round_even_def)

lemma round_even_floor: "\<lfloor>r\<rfloor> \<le> round_even r" "round_even r \<le> \<lfloor>r\<rfloor> + 1"
  by (simp_all add: round_even_def Let_def)

lemma round_even_error: "\<bar>of_int (round_even r) - r\<bar> \<le> 1 / 2"
  by (auto simp: round_even_def Let_def)

lemma round_even_ge_int:
  assumes "of_int z \<le> r"
  shows "z \<le> round_even r"
proof -
  from assms have "z \<le> \<lfloor>r\<rfloor>" by (simp add: le_floor_iff)
  with round_even_floor(1) [of r] show ?thesis by linarith
qed

lemma round_even_le_int:
  assumes "r \<le> of_int z"
  shows "round_even r \<le> z"
proof (cases "r = of_int z")
  case True
  then show ?thesis by simp
next
  case False
  with assms have "r < of_int z" by simp
  then have "\<lfloor>r\<rfloor> < z" by (simp add: floor_less_iff)
  with round_even_floor(2) [of r] show ?thesis by simp
qed

lemma round_even_mono:
  assumes "r \<le> s"
  shows "round_even r \<le> round_even s"
proof (cases "\<lfloor>r\<rfloor> < \<lfloor>s\<rfloor>")
  case True
  with round_even_floor(2) [of r] round_even_floor(1) [of s] show ?thesis by simp
next
  case False
  with assms have "\<lfloor>r\<rfloor> = \<lfloor>s\<rfloor>" using floor_mono [of r s] by simp
  with assms show ?thesis by (auto simp: round_even_def Let_def)
qed

lemma dbl_0 [simp]: "dbl 0 = 0"
  by (simp add: dbl_def)

lemma dbl_minus: "dbl (- x) = - dbl x"
  by (simp add: dbl_def Let_def)

lemma dbl_pos:
  "0 < x \<Longrightarrow> dbl x = of_int (round_even (x / 2 powi (floor_log2 x - 52))) * 2 powi (floor_log2 x - 52)"
  by (simp add: dbl_def Let_def)

lemma scaled_bounds:
  assumes "0 < x"
  shows "2 ^ 52 \<le> x / 2 powi (floor_log2 x - 52)" and "x / 2 powi (floor_log2 x - 52) < 2 ^ 53"
proof -
  note b = floor_log2_bounds [OF assms]
  have p: "(0::real) < 2 powi (floor_log2 x - 52)" by simp
  have "(2::real) ^ 52 * 2 powi (floor_log2 x - 52) = 2 powi (52 + (floor_log2 x - 52))"
    by (subst power_int_add) simp_all
  then have 1: "(2::real) ^ 52 * 2 powi (floor_log2 x - 52) = 2 powi (floor_log2 x)" by simp
  have "(2::real) ^ 53 * 2 powi (floor_log2 x - 52) = 2 powi (53 + (floor_log2 x - 52))"
    by (subst power_int_add) simp_all
  then have 2: "(2::real) ^ 53 * 2 powi (floor_log2 x - 52) = 2 powi (floor_log2 x + 1)"
    by (simp add: add.commute)
  show "2 ^ 52 \<le> x / 2 powi (floor_log2 x - 52)"
    using b(1) p 1 by (simp add: pos_le_divide_eq)
  show "x / 2 powi (floor_log2 x - 52) < 2 ^ 53"
    using b(2) p 2 by (simp add: pos_divide_less_eq)
qed

lemma mantissa_bounds:
  assumes "0 < x"
  shows "2 ^ 52 \<le> round_even (x / 2 powi (floor_log2 x - 52))"
    and "round_even (x / 2 powi (floor_log2 x - 52)) \<le> 2 ^ 53"
proof -
  note s = scaled_bounds [OF assms]
  have "of_int (2 ^ 52) \<le> x / 2 powi (floor_log2 x - 52)" using s(1) by simp
  then show "2 ^ 52 \<le> round_even (x / 2 powi (floor_log2 x - 52))" by (rule round_even_ge_int)
  have "x / 2 powi (floor_log2 x - 52) \<le> of_int (2 ^ 53)" using s(2) by simp
  then show "round_even (x / 2 powi (floor_log2 x - 52)) \<le> 2 ^ 53" by (rule round_even_le_int)
qed

lemma dbl_pos_bounds:
  assumes "0 < x"
  shows "2 powi (floor_log2 x) \<le> dbl x" and "dbl x \<le> 2 powi (floor_log2 x + 1)"
proof -
  let ?e = "floor_log2 x - 52"
  let ?m = "round_even (x / 2 powi ?e)"
  note m = mantissa_bounds [OF assms]
  have p: "(0::real) \<le> 2 powi ?e" by simp
  have "(2::real) ^ 52 * 2 powi ?e = 2 powi (52 + ?e)" by (subst power_int_add) simp_all
  then have 1: "(2::real) ^ 52 * 2 powi ?e = 2 powi (floor_log2 x)" by simp
  have "(2::real) ^ 53 * 2 powi ?e = 2 powi (53 + ?e)" by (subst power_int_add) simp_all
  then have 2: "(2::real) ^ 53 * 2 powi ?e = 2 powi (floor_log2 x + 1)" by (simp add: add.commute)
  have "(2::real) ^ 52 \<le> of_int ?m" using m(1) by (metis of_int_le_iff of_int_numeral of_int_power)
  then have "(2::real) ^ 52 * 2 powi ?e \<le> of_int ?m * 2 powi ?e" using p by (rule mult_right_mono)
  then show "2 powi (floor_log2 x) \<le> dbl x" unfolding 1 dbl_pos [OF assms] .
  have "of_int ?m \<le> (2::real) ^ 53" using m(2) by (metis of_int_le_iff of_int_numeral of_int_power)
  then have "of_int ?m * 2 powi ?e \<le> (2::real) ^ 53 * 2 powi ?e" using p by (rule mult_right_mono)
  then show "dbl x \<le> 2 powi (floor_log2 x + 1)" unfolding 2 dbl_pos [OF assms] .
qed

lemma dbl_pos_pos:
  assumes "0 < x"
  shows "0 < dbl x"
proof -
  have "(0::real) < 2 powi (floor_log2 x)" by simp
  with dbl_pos_bounds(1) [OF assms] show ?thesis by linarith
qed

lemma floor_log2_mono:
  assumes "0 < x" "x \<le> y"
  shows "floor_log2 x \<le> floor_log2 y"
proof -
  from assms have y: "0 < y" by simp
  have "2 powi (floor_log2 x) \<le> x" using floor_log2_bounds(1) [OF assms(1)] .
  also note assms(2)
  also have "y < 2 powi (floor_log2 y + 1)" using floor_log2_bounds(2) [OF y] .
  finally have "floor_log2 x < floor_log2 y + 1" by (rule two_powi_less_D)
  then show ?thesis by simp
qed

lemma dbl_pos_mono:
  assumes "0 < x" "x \<le> y"
  shows "dbl x \<le> dbl y"
proof (cases "floor_log2 x = floor_log2 y")
  case True
  from assms have y: "0 < y" by simp
  let ?e = "floor_log2 y - 52"
  have "x / 2 powi ?e \<le> y / 2 powi ?e" using assms(2) by (simp add: divide_right_mono)
  then have "round_even (x / 2 powi ?e) \<le> round_even (y / 2 powi ?e)" by (rule round_even_mono)
  then have "(of_int (round_even (x / 2 powi ?e)) :: real) \<le> of_int (round_even (y / 2 powi ?e))"
    by simp
  then have "of_int (round_even (x / 2 powi ?e)) * 2 powi ?e
      \<le> of_int (round_even (y / 2 powi ?e)) * (2::real) powi ?e"
    by (rule mult_right_mono) simp
  then show ?thesis using assms(1) y True by (simp add: dbl_pos)
next
  case False
  from assms have y: "0 < y" by simp
  from False floor_log2_mono [OF assms] have "floor_log2 x + 1 \<le> floor_log2 y" by simp
  then have "(2::real) powi (floor_log2 x + 1) \<le> 2 powi (floor_log2 y)"
    by (rule power_int_increasing) simp
  with dbl_pos_bounds(2) [OF assms(1)] dbl_pos_bounds(1) [OF y] show ?thesis by linarith
qed

lemma dbl_nonneg: "0 \<le> x \<Longrightarrow> 0 \<le> dbl x"
  using dbl_pos_pos [of x] by (cases "x = 0") simp_all

lemma dbl_nonpos: "x \<le> 0 \<Longrightarrow> dbl x \<le> 0"
  using dbl_nonneg [of "- x"] by (simp add: dbl_minus)

lemma dbl_mono:
  assumes "x \<le> y"
  shows "dbl x \<le> dbl y"
proof -
  consider "0 < x" | "x \<le> 0" "0 \<le> y" | "y < 0" by linarith
  then show ?thesis
  proof cases
    case 1
    then show ?thesis using assms by (rule dbl_pos_mono)
  next
    case 2
    with dbl_nonpos [of x] dbl_nonneg [of y] show ?thesis by simp
  next
    case 3
    with assms have "0 < - y" "- y \<le> - x" by simp_all
    from dbl_pos_mono [OF this] show ?thesis by (simp add: dbl_minus)
  qed
qed

lemma dbl_exact_pos:
  assumes "0 < z" "z < 2 ^ 53"
  shows "dbl (of_int z * 2 powi s) = of_int z * 2 powi s"
proof -
  let ?x = "of_int z * (2::real) powi s"
  have x: "0 < ?x" using assms(1) by simp
  let ?k = "floor_log2 ?x"
  have "2 powi ?k \<le> ?x" using floor_log2_bounds(1) [OF x] .
  also have "?x < 2 ^ 53 * 2 powi s"
  proof (rule mult_strict_right_mono)
    show "of_int z < (2::real) ^ 53"
      using assms(2) by (metis of_int_less_iff of_int_numeral of_int_power)
  qed simp
  also have "\<dots> = 2 powi (53 + s)" by (subst power_int_add) simp_all
  finally have "?k < 53 + s" by (rule two_powi_less_D)
  then have e: "0 \<le> s - (?k - 52)" by simp
  have "?x / 2 powi (?k - 52) = of_int z * 2 powi (s - (?k - 52))"
    by (simp add: power_int_diff)
  also have "\<dots> = of_int (z * 2 ^ nat (s - (?k - 52)))"
    using e by (simp add: power_int_nonneg_exp)
  finally have "round_even (?x / 2 powi (?k - 52)) = z * 2 ^ nat (s - (?k - 52))"
    by (simp only: round_even_of_int)
  then have "dbl ?x = of_int (z * 2 ^ nat (s - (?k - 52))) * 2 powi (?k - 52)"
    using x by (simp only: dbl_pos)
  also have "\<dots> = of_int z * (2 powi (s - (?k - 52)) * 2 powi (?k - 52))"
    using e by (simp add: power_int_nonneg_exp)
  also have "2 powi (s - (?k - 52)) * 2 powi (?k - 52) = (2::real) powi s"
    by (subst power_int_add [symmetric]) simp_all
  finally show ?thesis .
qed

lemma dbl_exact:
  assumes "\<bar>z\<bar> < 2 ^ 53"
  shows "dbl (of_int z * 2 powi s) = of_int z * 2 powi s"
proof -
  consider "z = 0" | "0 < z" | "z < 0" by linarith
  then show ?thesis
  proof cases
    case 1
    then show ?thesis by simp
  next
    case 2
    with assms show ?thesis by (intro dbl_exact_pos) simp_all
  next
    case 3
    with assms have "0 < - z" "- z < 2 ^ 53" by simp_all
    from dbl_exact_pos [OF this, of s] show ?thesis by (simp add: dbl_minus)
  qed
qed

lemma dbl_of_int: "\<bar>z\<bar> < 2 ^ 53 \<Longrightarrow> dbl (of_int z) = of_int z"
  using dbl_exact [of z 0] by simp

lemma dbl_idem: "dbl (dbl x) = dbl x"
proof -
  have pos: "dbl (dbl x) = dbl x" if x: "0 < x" for x
  proof -
    let ?e = "floor_log2 x - 52"
    let ?m = "round_even (x / 2 powi ?e)"
    note m = mantissa_bounds [OF x]
    show ?thesis
    proof (cases "?m = 2 ^ 53")
      case True
      have s1: "(2::real) powi (?e + 1) = 2 powi ?e * 2" by (rule power_int_add_1) simp
      have "dbl x = of_int ?m * 2 powi ?e" by (rule dbl_pos [OF x])
      also have "\<dots> = of_int (2 ^ 52) * (2 powi ?e * 2)" unfolding True by simp
      also have "\<dots> = of_int (2 ^ 52) * 2 powi (?e + 1)" unfolding s1 ..
      finally have "dbl x = of_int (2 ^ 52) * 2 powi (?e + 1)" .
      moreover have "dbl (of_int (2 ^ 52) * 2 powi (?e + 1)) = of_int (2 ^ 52) * 2 powi (?e + 1)"
        by (rule dbl_exact) simp
      ultimately show ?thesis by simp
    next
      case False
      with m have "\<bar>?m\<bar> < 2 ^ 53" by simp
      from dbl_exact [OF this, of ?e] x show ?thesis by (simp add: dbl_pos)
    qed
  qed
  consider "x = 0" | "0 < x" | "x < 0" by linarith
  then show ?thesis
  proof cases
    case 1
    then show ?thesis by simp
  next
    case 2
    then show ?thesis by (rule pos)
  next
    case 3
    then have "0 < - x" by simp
    from pos [OF this] show ?thesis by (simp add: dbl_minus)
  qed
qed

lemma dbl_error_pos:
  assumes "0 < x"
  shows "\<bar>dbl x - x\<bar> \<le> x / 2 ^ 53"
proof -
  let ?e = "floor_log2 x - 52"
  let ?m = "round_even (x / 2 powi ?e)"
  have p: "(0::real) < 2 powi ?e" by simp
  have "dbl x - x = (of_int ?m - x / 2 powi ?e) * 2 powi ?e"
    using assms by (simp add: dbl_pos algebra_simps)
  then have "\<bar>dbl x - x\<bar> = \<bar>of_int ?m - x / 2 powi ?e\<bar> * 2 powi ?e"
    by (simp add: abs_mult)
  also have "\<dots> \<le> 1 / 2 * 2 powi ?e"
    using round_even_error [of "x / 2 powi ?e"] p by (intro mult_right_mono) simp_all
  also have "\<dots> = 2 powi (floor_log2 x) / 2 ^ 53"
    by (simp add: power_int_diff)
  also have "\<dots> \<le> x / 2 ^ 53"
    using floor_log2_bounds(1) [OF assms] by (simp add: divide_right_mono)
  finally show ?thesis .
qed

lemma dbl_eval:
  assumes "2 powi k \<le> \<bar>x\<bar>" "\<bar>x\<bar> < 2 powi (k + 1)"
  shows "dbl x = sgn x * of_int (round_even (\<bar>x\<bar> / 2 powi (k - 52))) * 2 powi (k - 52)"
proof -
  from assms(1) have "0 < \<bar>x\<bar>" by (rule less_le_trans [rotated]) simp
  then have "x \<noteq> 0" by simp
  with floor_log2_unique [OF assms] show ?thesis by (simp add: dbl_def Let_def)
qed

lemma dbl_numeral [simp]: "(numeral n :: int) < 2 ^ 53 \<Longrightarrow> dbl (numeral n) = numeral n"
  using dbl_of_int [of "numeral n"] by simp

lemma dbl_neg_numeral [simp]:
  "(numeral n :: int) < 2 ^ 53 \<Longrightarrow> dbl (- numeral n) = - numeral n"
  by (simp add: dbl_minus)

lemma dbl_1 [simp]: "dbl 1 = 1"
  using dbl_of_int [of 1] by simp

section \<open>Properties of the statistics aggregator\<close>

text \<open>
  C9: on the empty point sequence \<open>calculateRouteStats\<close> returns the record whose nine
  fields are all 0; it is a value, not an error.
\<close>

theorem calculateRouteStats_empty:
  "calculateRouteStats [] =
     \<lparr>totalDistance = Fin 0, totalElevationGain = Fin 0, totalElevationLoss = Fin 0,
      maxElevation = Fin 0, minElevation = Fin 0, maxGrade = Fin 0, minGrade = Fin 0,
      averageGrade = Fin 0, estimatedTime = Fin 0\<rparr>"
  by (simp add: calculateRouteStats_def)

lemma in_segments_nth:
  "(p, c) \<in> set (segments xs) \<Longrightarrow> \<exists>i. i + 1 < length xs \<and> p = xs ! i \<and> c = xs ! (i + 1)"
proof (induction xs rule: segments.induct)
  case (1 a b rest)
  from "1.prems" consider "p = a \<and> c = b" | "(p, c) \<in> set (segments (b # rest))" by auto
  then show ?case
  proof cases
    case 1
    then have "0 + 1 < length (a # b # rest) \<and> p = (a # b # rest) ! 0 \<and> c = (a # b # rest) ! (0 + 1)"
      by simp
    then show ?thesis by blast
  next
    case 2
    from "1.IH" [OF this] obtain i where "i + 1 < length (b # rest)" "p = (b # rest) ! i" "c = (b # rest) ! (i + 1)"
      by blast
    then have "Suc i + 1 < length (a # b # rest) \<and> p = (a # b # rest) ! Suc i \<and> c = (a # b # rest) ! (Suc i + 1)"
      by simp
    then show ?thesis by blast
  qed
qed simp_all

lemma grade_step_keeps [simp]:
  "v_elevationGain (grade_step ec p c v) = v_elevationGain v"
  "v_elevationLoss (grade_step ec p c v) = v_elevationLoss v"
  "v_maxElevation (grade_step ec p c v) = v_maxElevation v"
  "v_minElevation (grade_step ec p c v) = v_minElevation v"
  by (simp_all add: grade_step_def Let_def)














lemma stats_step_grades:
  "v_maxGrade (stats_step p c v) =
     v_maxGrade (grade_step (js_sub (elevation c) (elevation p)) p c v)"
  "v_minGrade (stats_step p c v) =
     v_minGrade (grade_step (js_sub (elevation c) (elevation p)) p c v)"
  "v_totalGrade (stats_step p c v) =
     v_totalGrade (grade_step (js_sub (elevation c) (elevation p)) p c v)"
  "v_gradeCount (stats_step p c v) =
     v_gradeCount (grade_step (js_sub (elevation c) (elevation p)) p c v)"
  by (simp_all add: stats_step_def grade_step_def Let_def)




lemma stats_loop_stationary:
  assumes "\<forall>(a, b)\<in>set (segments (p # rest)). \<not> js_gt (js_sub (distance b) (distance a)) (Fin 0)"
  shows "v_maxGrade (stats_loop p rest v) = v_maxGrade v
       \<and> v_minGrade (stats_loop p rest v) = v_minGrade v
       \<and> v_totalGrade (stats_loop p rest v) = v_totalGrade v
       \<and> v_gradeCount (stats_loop p rest v) = v_gradeCount v"
  using assms
proof (induction rest arbitrary: p v)
  case Nil
  then show ?case by simp
next
  case (Cons c rest)
  from Cons.prems have "\<not> js_gt (js_sub (distance c) (distance p)) (Fin 0)" by simp
  then have "grade_step (js_sub (elevation c) (elevation p)) p c v = v"
    by (simp add: grade_step_def Let_def)
  then have "v_maxGrade (stats_step p c v) = v_maxGrade v"
    "v_minGrade (stats_step p c v) = v_minGrade v"
    "v_totalGrade (stats_step p c v) = v_totalGrade v"
    "v_gradeCount (stats_step p c v) = v_gradeCount v"
    by (simp_all add: stats_step_grades)
  with Cons.IH [of c "stats_step p c v"] Cons.prems show ?case by simp
qed

text \<open>
  C8: for every non-empty point sequence in which every consecutive pair has a distance
  change of 0, \<open>calculateRouteStats\<close> returns \<open>averageGrade\<close>, \<open>maxGrade\<close> and
  \<open>minGrade\<close> equal to the number 0; none of them is \<open>NaN\<close>.
\<close>

theorem calculateRouteStats_stationary:
  assumes "points \<noteq> []"
    and "\<forall>i. i + 1 < length points \<longrightarrow>
           js_sub (distance (points ! (i + 1))) (distance (points ! i)) = Fin 0"
  shows "averageGrade (calculateRouteStats points) = Fin 0
       \<and> maxGrade (calculateRouteStats points) = Fin 0
       \<and> minGrade (calculateRouteStats points) = Fin 0"
proof -
  from assms(1) obtain p0 rest where pts: "points = p0 # rest" by (cases points) auto
  have seg: "\<forall>(a, b)\<in>set (segments (p0 # rest)).
               \<not> js_gt (js_sub (distance b) (distance a)) (Fin 0)"
  proof (clarify)
    fix a b assume "(a, b) \<in> set (segments (p0 # rest))"
      and gt: "js_gt (js_sub (distance b) (distance a)) (Fin 0)"
    from in_segments_nth [OF this(1)] obtain i
      where "i + 1 < length points" "a = points ! i" "b = points ! (i + 1)"
      using pts by auto
    with assms(2) have "js_sub (distance b) (distance a) = Fin 0" by simp
    with gt show False by simp
  qed
  let ?v = "\<lparr>v_elevationGain = Fin 0, v_elevationLoss = Fin 0,
                      v_maxElevation = elevation p0, v_minElevation = elevation p0,
                      v_maxGrade = Fin 0, v_minGrade = Fin 0,
                      v_totalGrade = Fin 0, v_gradeCount = 0\<rparr>"
  from stats_loop_stationary [OF seg, of ?v]
  show ?thesis by (simp add: calculateRouteStats_def pts Let_def)
qed

theorem calculateRouteStats_stationary_witness:
  "stationary_route \<noteq> []
   \<and> js_sub (distance (stationary_route ! 1)) (distance (stationary_route ! 0)) = Fin 0
   \<and> js_sub (distance (stationary_route ! 2)) (distance (stationary_route ! 1)) = Fin 0
   \<and> averageGrade (calculateRouteStats stationary_route) = Fin 0
   \<and> maxGrade (calculateRouteStats stationary_route) = Fin 0
   \<and> minGrade (calculateRouteStats stationary_route) = Fin 0"
proof -
  have ne: "stationary_route \<noteq> []" by (simp add: stationary_route_def)
  have z: "\<forall>i. i + 1 < length stationary_route \<longrightarrow>
      js_sub (distance (stationary_route ! (i + 1))) (distance (stationary_route ! i)) = Fin 0"
    by (auto simp: stationary_route_def route_point_def js_sub_def less_Suc_eq)
  from calculateRouteStats_stationary [OF ne z] show ?thesis
    by (simp add: stationary_route_def route_point_def js_sub_def)
qed




section \<open>Properties of the difficulty classifier and the alert derivers\<close>

text \<open>
  C7: for route statistics with \<open>totalDistance = 25000\<close>, \<open>totalElevationGain = 1200\<close> and
  \<open>maxGrade = 22\<close> (whatever the other fields), \<open>calculateDifficulty\<close> returns
  \<open>extreme\<close> (score 3 + 3 + 3) and \<open>getSafetyScore\<close> returns 55 (100 - 20 - 15 - 10).
\<close>

theorem difficulty_and_safety_scenario:
  "calculateDifficulty (stats\<lparr>totalDistance := Fin 25000, totalElevationGain := Fin 1200,
                               maxGrade := Fin 22\<rparr>) = extreme
   \<and> getSafetyScore (stats\<lparr>totalDistance := Fin 25000, totalElevationGain := Fin 1200,
                            maxGrade := Fin 22\<rparr>) = 55"
  by (simp add: calculateDifficulty_def getSafetyScore_def Let_def)

lemma calculateDifficulty_factors:
  "calculateDifficulty stats =
     classify_score (score_factor 20 10 5 (js_div (totalDistance stats) (Fin 1000))
                   + score_factor 1000 500 200 (totalElevationGain stats)
                   + score_factor 20 15 10 (js_abs (maxGrade stats)))"
  by (simp add: calculateDifficulty_def Let_def classify_score_def score_factor_def)

lemma score_factor_mono:
  assumes "not_decreased a b" "t3 \<le> t2" "t2 \<le> t1"
  shows "score_factor t1 t2 t3 a \<le> score_factor t1 t2 t3 b"
  using assms by (cases a; cases b) (auto simp: score_factor_def not_decreased_def)

lemma km_not_decreased:
  assumes "not_decreased a b"
  shows "not_decreased (js_div a (Fin 1000)) (js_div b (Fin 1000))"
proof (cases "a = b")
  case True
  then show ?thesis by (simp add: not_decreased_def)
next
  case False
  with assms have gt: "js_gt b a" by (simp add: not_decreased_def)
  show ?thesis
  proof (cases a)
    case a: (Fin x)
    show ?thesis
    proof (cases b)
      case (Fin y)
      with a gt have "x / 1000 \<le> y / 1000" by simp
      then have "dbl (x / 1000) \<le> dbl (y / 1000)" by (rule dbl_mono)
      with a Fin show ?thesis by (auto simp: not_decreased_def)
    qed (use a gt in \<open>simp_all add: not_decreased_def\<close>)
  qed (use gt in \<open>cases b; simp add: not_decreased_def\<close>)+
qed

lemma classify_score_mono: "m \<le> n \<Longrightarrow> tier (classify_score m) \<le> tier (classify_score n)"
  by (simp add: classify_score_def)

text \<open>
  C4, as amended: \<open>calculateDifficulty\<close> is monotonic in \<open>totalDistance\<close>, in
  \<open>totalElevationGain\<close> and in the absolute value of \<open>maxGrade\<close> (which the code takes
  with \<open>Math.abs\<close>): when none of the three is decreased, and so when one is increased
  and the others are held fixed, the tier does not decrease.
\<close>

theorem calculateDifficulty_monotone:
  assumes "not_decreased (totalDistance s) (totalDistance s')"
    and "not_decreased (totalElevationGain s) (totalElevationGain s')"
    and "not_decreased (js_abs (maxGrade s)) (js_abs (maxGrade s'))"
  shows "tier (calculateDifficulty s) \<le> tier (calculateDifficulty s')"
proof -
  have "score_factor 20 10 5 (js_div (totalDistance s) (Fin 1000))
        \<le> score_factor 20 10 5 (js_div (totalDistance s') (Fin 1000))"
    using km_not_decreased [OF assms(1)] by (rule score_factor_mono) simp_all
  moreover have "score_factor 1000 500 200 (totalElevationGain s)
        \<le> score_factor 1000 500 200 (totalElevationGain s')"
    using assms(2) by (rule score_factor_mono) simp_all
  moreover have "score_factor 20 15 10 (js_abs (maxGrade s))
        \<le> score_factor 20 15 10 (js_abs (maxGrade s'))"
    using assms(3) by (rule score_factor_mono) simp_all
  ultimately show ?thesis
    unfolding calculateDifficulty_factors by (intro classify_score_mono add_mono)
qed

text \<open>
  The claim C4 as stated, with \<open>maxGrade\<close> itself increased, fails: raising \<open>maxGrade\<close>
  from -25 to 0, all other fields fixed, lowers the tier from extreme to hard.
\<close>

theorem calculateDifficulty_maxGrade_counterexample:
  "js_gt (maxGrade (long_steep_stats 0)) (maxGrade (long_steep_stats (- 25)))
   \<and> long_steep_stats 0 = (long_steep_stats (- 25))\<lparr>maxGrade := Fin 0\<rparr>
   \<and> calculateDifficulty (long_steep_stats (- 25)) = extreme
   \<and> calculateDifficulty (long_steep_stats 0) = hard
   \<and> tier (calculateDifficulty (long_steep_stats 0))
       < tier (calculateDifficulty (long_steep_stats (- 25)))"
  by (simp add: long_steep_stats_def calculateDifficulty_def Let_def)

theorem calculateDifficulty_monotone_witness:
  "not_decreased (totalDistance (long_steep_stats 12)) (totalDistance (long_steep_stats 22))
   \<and> not_decreased (totalElevationGain (long_steep_stats 12)) (totalElevationGain (long_steep_stats 22))
   \<and> not_decreased (js_abs (maxGrade (long_steep_stats 12))) (js_abs (maxGrade (long_steep_stats 22)))
   \<and> tier (calculateDifficulty (long_steep_stats 12)) \<le> tier (calculateDifficulty (long_steep_stats 22))"
  using calculateDifficulty_monotone [of "long_steep_stats 12" "long_steep_stats 22"]
  by (simp add: long_steep_stats_def not_decreased_def)

text \<open>
  C6 says that the steep-section detector never divides by a zero distance change. On a
  route of seven points at the same cumulative distance with rising elevations,
  \<open>getTrafficInfo\<close> divides by zero on each of the six segments, gets an infinite grade,
  counts all six as steep and emits the caution message, while \<open>calculateRouteStats\<close>
  skips the same segments and reports \<open>maxGrade\<close> 0.
\<close>

theorem getTrafficInfo_divides_by_zero:
  "length (steepSections stalled_climb_route) = 6
   \<and> getTrafficInfo stalled_climb_route = [''Multiple steep sections - allow extra time'']
   \<and> maxGrade (calculateRouteStats stalled_climb_route) = Fin 0"
  by (simp add: stalled_climb_route_def getTrafficInfo_def steepSections_def filter_indexed_def
      upt_rec Let_def js_sub_def calculateRouteStats_def stats_step_def grade_step_def
      route_point_def)

section \<open>Properties of the elevation enricher\<close>

lemma length_route_points_loop [simp]:
  "length (route_points_loop between t prev rs) = length rs"
  by (induction rs arbitrary: t prev) (simp_all add: Let_def)

lemma distances_route_points_loop:
  "map distance (route_points_loop between t (Some p) rs)
     = running_totals t (segment_lengths between (p # rs))"
  by (induction rs arbitrary: t p) (simp_all add: Let_def segment_lengths_def)

lemma distances_createRoutePoints:
  "map distance (createRoutePoints between (r # rs) fullPath)
     = Fin 0 # running_totals (Fin 0) (segment_lengths between (r # rs))"
  by (simp add: createRoutePoints_def Let_def distances_route_points_loop)

lemma length_running_totals [simp]: "length (running_totals t ds) = length ds"
  by (induction ds arbitrary: t) simp_all

lemma running_totals_nth:
  "i < length ds \<Longrightarrow> running_totals t ds ! i = foldl js_add t (take (Suc i) ds)"
proof (induction ds arbitrary: t i)
  case Nil
  then show ?case by simp
next
  case (Cons d ds)
  then show ?case by (cases i) simp_all
qed

lemma length_segments [simp]: "length (segments xs) = length xs - 1"
  by (induction xs rule: segments.induct) simp_all

lemma segments_nth: "i + 1 < length xs \<Longrightarrow> segments xs ! i = (xs ! i, xs ! (i + 1))"
proof (induction xs arbitrary: i rule: segments.induct)
  case (1 p c rest)
  then show ?case by (cases i) simp_all
qed simp_all

lemma take_segment_lengths:
  assumes "i < length rs"
  shows "take i (segment_lengths between rs)
     = map (\<lambda>k. between (location (rs ! k)) (location (rs ! (k + 1)))) [0..<i]"
proof (rule nth_equalityI)
  show "length (take i (segment_lengths between rs))
      = length (map (\<lambda>k. between (location (rs ! k)) (location (rs ! (k + 1)))) [0..<i])"
    using assms by (simp add: segment_lengths_def)
next
  fix k assume "k < length (take i (segment_lengths between rs))"
  then have k: "k < i" by simp
  with assms have "k + 1 < length rs" by simp
  from segments_nth [OF this] k assms
  show "take i (segment_lengths between rs) ! k
      = map (\<lambda>k. between (location (rs ! k)) (location (rs ! (k + 1)))) [0..<i] ! k"
    by (simp add: segment_lengths_def)
qed

lemma createRoutePoints_distance_nth:
  assumes "i < length rs"
  shows "distance (createRoutePoints between rs fullPath ! i)
     = foldl js_add (Fin 0) (take i (segment_lengths between rs))"
proof -
  from assms obtain r rest where rs: "rs = r # rest" by (cases rs) auto
  have len: "length (createRoutePoints between rs fullPath) = length rs"
    by (simp add: createRoutePoints_def)
  with assms have "distance (createRoutePoints between rs fullPath ! i)
      = map distance (createRoutePoints between rs fullPath) ! i" by simp
  also have "\<dots> = (Fin 0 # running_totals (Fin 0) (segment_lengths between rs)) ! i"
    by (simp only: rs distances_createRoutePoints)
  also have "\<dots> = foldl js_add (Fin 0) (take i (segment_lengths between rs))"
  proof (cases i)
    case 0
    then show ?thesis by simp
  next
    case (Suc j)
    with assms have "j < length (segment_lengths between rs)"
      by (simp add: segment_lengths_def)
    with Suc show ?thesis by (simp add: running_totals_nth)
  qed
  finally show ?thesis .
qed

lemma foldl_js_add_nonneg:
  assumes "\<forall>x\<in>set ds. \<exists>d\<ge>0. x = Fin d" and "dbl t = t"
  shows "\<exists>s. foldl js_add (Fin t) ds = Fin s \<and> t \<le> s \<and> dbl s = s"
  using assms
proof (induction ds arbitrary: t)
  case Nil
  then show ?case by simp
next
  case (Cons x ds)
  then obtain d where d: "0 \<le> d" "x = Fin d" by auto
  from Cons.prems(1) have r: "\<forall>x\<in>set ds. \<exists>d\<ge>0. x = Fin d" by simp
  have i: "dbl (dbl (t + d)) = dbl (t + d)" by (rule dbl_idem)
  from d(1) have "dbl t \<le> dbl (t + d)" by (intro dbl_mono) simp
  with Cons.prems(2) have m: "t \<le> dbl (t + d)" by simp
  from Cons.IH [OF r i] obtain s
    where "foldl js_add (Fin (dbl (t + d))) ds = Fin s" "dbl (t + d) \<le> s" "dbl s = s" by blast
  with d m show ?case by auto
qed

lemma foldl_js_add_take_mono:
  assumes "\<forall>x\<in>set ds. \<exists>d\<ge>0. x = Fin d" "i \<le> j"
  shows "js_le (foldl js_add (Fin 0) (take i ds)) (foldl js_add (Fin 0) (take j ds))"
proof -
  have nn: "\<forall>x\<in>set (take i ds). \<exists>d\<ge>0. x = Fin d"
    "\<forall>x\<in>set (drop i (take j ds)). \<exists>d\<ge>0. x = Fin d"
    using assms(1) by (auto dest: in_set_takeD in_set_dropD)
  from foldl_js_add_nonneg [OF nn(1), of 0] obtain s
    where s: "foldl js_add (Fin 0) (take i ds) = Fin s" "dbl s = s" by auto
  from foldl_js_add_nonneg [OF nn(2) s(2)] obtain s'
    where s': "foldl js_add (Fin s) (drop i (take j ds)) = Fin s'" "s \<le> s'" by blast
  from assms(2) have "take j ds = take i ds @ drop i (take j ds)"
    by (metis append_take_drop_id min.absorb_iff2 take_take min.commute)
  then have "foldl js_add (Fin 0) (take j ds)
      = foldl js_add (foldl js_add (Fin 0) (take i ds)) (drop i (take j ds))"
    by (metis foldl_append)
  with s s' show ?thesis by simp
qed

text \<open>
  C2: for every non-empty elevation-result sequence, with a distance function that gives a
  finite non-negative number on each consecutive pair (as a great-circle distance does),
  \<open>createRoutePoints\<close> returns one point per result, the first point has distance 0,
  point \<open>i\<close> has the running sum of the distances of the segments up to the one ending
  at \<open>i\<close>, and the distances are non-decreasing.
\<close>

theorem createRoutePoints_distances:
  assumes "elevationData \<noteq> []"
    and "\<forall>i. i + 1 < length elevationData \<longrightarrow>
           (\<exists>d\<ge>0. between (location (elevationData ! i)) (location (elevationData ! (i + 1))) = Fin d)"
  shows "length (createRoutePoints between elevationData fullPath) = length elevationData
       \<and> distance (createRoutePoints between elevationData fullPath ! 0) = Fin 0
       \<and> (\<forall>i<length elevationData.
             distance (createRoutePoints between elevationData fullPath ! i)
               = foldl js_add (Fin 0)
                   (map (\<lambda>k. between (location (elevationData ! k))
                                       (location (elevationData ! (k + 1)))) [0..<i]))
       \<and> (\<forall>i j. i \<le> j \<and> j < length elevationData \<longrightarrow>
             js_le (distance (createRoutePoints between elevationData fullPath ! i))
                   (distance (createRoutePoints between elevationData fullPath ! j)))"
proof -
  have len: "length (createRoutePoints between elevationData fullPath) = length elevationData"
    by (simp add: createRoutePoints_def)
  from assms(1) have pos: "0 < length elevationData" by simp
  have first: "distance (createRoutePoints between elevationData fullPath ! 0) = Fin 0"
    using createRoutePoints_distance_nth [OF pos] by simp
  have run: "\<forall>i<length elevationData.
             distance (createRoutePoints between elevationData fullPath ! i)
               = foldl js_add (Fin 0)
                   (map (\<lambda>k. between (location (elevationData ! k))
                                       (location (elevationData ! (k + 1)))) [0..<i])"
    by (simp add: createRoutePoints_distance_nth take_segment_lengths)
  have nn: "\<forall>x\<in>set (segment_lengths between elevationData). \<exists>d\<ge>0. x = Fin d"
  proof
    fix x assume "x \<in> set (segment_lengths between elevationData)"
    then obtain a b where ab: "(a, b) \<in> set (segments elevationData)"
      "x = between (location a) (location b)"
      by (auto simp: segment_lengths_def)
    from in_segments_nth [OF ab(1)] obtain i where "i + 1 < length elevationData"
      "a = elevationData ! i" "b = elevationData ! (i + 1)" by blast
    with assms(2) ab(2) show "\<exists>d\<ge>0. x = Fin d" by simp
  qed
  have mono: "\<forall>i j. i \<le> j \<and> j < length elevationData \<longrightarrow>
             js_le (distance (createRoutePoints between elevationData fullPath ! i))
                   (distance (createRoutePoints between elevationData fullPath ! j))"
  proof (intro allI impI)
    fix i j assume ij: "i \<le> j \<and> j < length elevationData"
    then have "i < length elevationData" "j < length elevationData" by simp_all
    then show "js_le (distance (createRoutePoints between elevationData fullPath ! i))
                   (distance (createRoutePoints between elevationData fullPath ! j))"
      using foldl_js_add_take_mono [OF nn, of i j] ij
      by (simp add: createRoutePoints_distance_nth)
  qed
  from len first run mono show ?thesis by blast
qed

lemma three_results_distances:
  "map distance (createRoutePoints meridian_distance three_results [])
     = [Fin 0, Fin 111000, Fin 333000]"
  by (simp add: createRoutePoints_def three_results_def elevation_at_def location_at_def
      meridian_distance_def js_sub_def Let_def)

theorem createRoutePoints_distances_witness:
  "three_results \<noteq> []
   \<and> meridian_distance (location (three_results ! 0)) (location (three_results ! 1)) = Fin 111000
   \<and> meridian_distance (location (three_results ! 1)) (location (three_results ! 2)) = Fin 222000
   \<and> map distance (createRoutePoints meridian_distance three_results []) = [Fin 0, Fin 111000, Fin 333000]
   \<and> distance (createRoutePoints meridian_distance three_results [] ! 0) = Fin 0
   \<and> js_le (distance (createRoutePoints meridian_distance three_results [] ! 1))
           (distance (createRoutePoints meridian_distance three_results [] ! 2))"
proof -
  have ne: "three_results \<noteq> []" by (simp add: three_results_def)
  have s1: "meridian_distance (location (three_results ! 0)) (location (three_results ! 1)) = Fin 111000"
    and s2: "meridian_distance (location (three_results ! 1)) (location (three_results ! 2)) = Fin 222000"
    by (simp_all add: three_results_def elevation_at_def location_at_def meridian_distance_def js_sub_def)
  have nn: "\<forall>i. i + 1 < length three_results \<longrightarrow>
           (\<exists>d\<ge>0. meridian_distance (location (three_results ! i)) (location (three_results ! (i + 1))) = Fin d)"
    by (auto simp: three_results_def elevation_at_def location_at_def meridian_distance_def
        js_sub_def less_Suc_eq)
  have l: "(1::nat) \<le> 2 \<and> 2 < length three_results" by (simp add: three_results_def)
  from createRoutePoints_distances [OF ne nn, of "[]"] l
  have "distance (createRoutePoints meridian_distance three_results [] ! 0) = Fin 0"
    "js_le (distance (createRoutePoints meridian_distance three_results [] ! 1))
           (distance (createRoutePoints meridian_distance three_results [] ! 2))"
    by blast+
  with ne s1 s2 three_results_distances show ?thesis by blast
qed

text \<open>
  C5, as amended: \<open>getElevationData\<close> is rejected with the error
  \<open>Elevation request failed: <status>\<close> whenever the status is not \<open>OK\<close> or no result
  array is returned; a result array returned with the status \<open>OK\<close> is passed on as it
  is, whatever its length; in every case the service is called exactly once.
\<close>

theorem getElevationData_outcome:
  assumes "es_respond svc (es_calls svc) locations = (results, status)"
  shows "(status \<noteq> ''OK'' \<or> results = None \<longrightarrow>
            fst (getElevationData svc locations)
              = Inl (Error (''Elevation request failed: '' @ status)))
       \<and> (\<forall>rs. status = ''OK'' \<and> results = Some rs \<longrightarrow>
            fst (getElevationData svc locations) = Inr rs)
       \<and> es_calls (snd (getElevationData svc locations)) = es_calls svc + 1"
  using assms
  by (auto simp: getElevationData_def getElevationForLocations_def split: option.splits)

text \<open>
  The claim C5 as stated fails on its second condition: a service that answers two
  locations with a single result and the status \<open>OK\<close> makes \<open>getElevationData\<close>
  resolve with that single result.
\<close>

theorem getElevationData_length_counterexample:
  "fst (getElevationData short_answer_service [location_at 0 0, location_at 1 0])
     = Inr [elevation_at 0 0 100]
   \<and> length [elevation_at 0 0 100] \<noteq> length [location_at 0 0, location_at 1 0]"
  by (simp add: getElevationData_def getElevationForLocations_def short_answer_service_def)

theorem getElevationData_outcome_witness:
  "es_respond refusing_service (es_calls refusing_service) [location_at 0 0]
     = (None, ''OVER_QUERY_LIMIT'')
   \<and> fst (getElevationData refusing_service [location_at 0 0])
       = Inl (Error ''Elevation request failed: OVER_QUERY_LIMIT'')
   \<and> es_calls (snd (getElevationData refusing_service [location_at 0 0])) = 1
   \<and> es_respond short_answer_service (es_calls short_answer_service) [location_at 0 0]
       = (Some [elevation_at 0 0 100], ''OK'')
   \<and> fst (getElevationData short_answer_service [location_at 0 0]) = Inr [elevation_at 0 0 100]"
proof -
  have r: "es_respond refusing_service (es_calls refusing_service) [location_at 0 0]
     = (None, ''OVER_QUERY_LIMIT'')"
    by (simp add: refusing_service_def)
  have a: "es_respond short_answer_service (es_calls short_answer_service) [location_at 0 0]
       = (Some [elevation_at 0 0 100], ''OK'')"
    by (simp add: short_answer_service_def)
  from getElevationData_outcome [OF r] getElevationData_outcome [OF a] r a show ?thesis
    by (simp add: refusing_service_def)
qed

section \<open>Properties of the path sampler\<close>

lemma sample_loop_map:
  "sample_loop path interval sampleCount i samples
     = samples @ map (\<lambda>k. js_index path (js_round (js_mul (Fin (real k)) interval)))
                     [i..<sampleCount]"
proof (induction path interval sampleCount i samples rule: sample_loop.induct)
  case (1 path interval sampleCount i samples)
  show ?case
  proof (cases "i < sampleCount")
    case True
    from "1.IH" [OF True refl] True show ?thesis
      by (subst sample_loop.simps) (simp add: Let_def upt_conv_Cons)
  next
    case False
    then show ?thesis by (subst sample_loop.simps) simp
  qed
qed

lemma js_index_nat: "n < length xs \<Longrightarrow> js_index xs (Fin (real n)) = Some (xs ! n)"
  by simp

lemma dbl_of_nat_pred:
  assumes "n \<le> 2 ^ 32"
  shows "dbl (real n - 1) = real n - 1"
proof -
  have "real n - 1 = of_int (int n - 1)" by simp
  moreover have "\<bar>int n - 1\<bar> < 2 ^ 53"
  proof -
    from assms have "int n \<le> 2 ^ 32" by (metis of_nat_le_iff of_nat_numeral of_nat_power)
    then show ?thesis by simp
  qed
  ultimately show ?thesis using dbl_of_int [of "int n - 1"] by simp
qed

lemma sample_interval:
  assumes "2 \<le> N" "N < L" "L \<le> 2 ^ 32"
  shows "js_div (js_sub (Fin (real L)) (Fin 1)) (js_sub (Fin (real N)) (Fin 1))
     = Fin (dbl ((real L - 1) / (real N - 1)))"
proof -
  from assms have n: "N \<le> 2 ^ 32" by simp
  from assms have nz: "real N - 1 \<noteq> 0" by simp
  show ?thesis
    using nz by (simp add: js_sub_def dbl_of_nat_pred [OF assms(3)] dbl_of_nat_pred [OF n])
qed

lemma sample_product_error:
  assumes "2 \<le> N" "N < L" "L \<le> 2 ^ 32" "i < N"
  shows "\<bar>dbl (real i * dbl ((real L - 1) / (real N - 1))) - real i * (real L - 1) / (real N - 1)\<bar>
     \<le> 1 / 2 ^ 19"
proof (cases "i = 0")
  case True
  then show ?thesis by simp
next
  case False
  define q where "q = (real L - 1) / (real N - 1)"
  define f where "f = dbl q"
  define x where "x = real i * q"
  define p where "p = real i * f"
  define eps where "eps = (1::real) / 2 ^ 53"
  from assms have nm: "0 < real N - 1" and lm: "0 < real L - 1" by simp_all
  then have q: "0 < q" by (simp add: q_def)
  from False have i: "0 < real i" by simp
  from q have f: "0 < f" unfolding f_def by (rule dbl_pos_pos)
  from i q have x: "0 < x" by (simp add: x_def)
  from i f have p: "0 < p" by (simp add: p_def)
  have e1: "\<bar>f - q\<bar> \<le> q * eps"
    using dbl_error_pos [OF q] by (simp add: f_def eps_def)
  have e2: "\<bar>dbl p - p\<bar> \<le> p * eps"
    using dbl_error_pos [OF p] by (simp add: eps_def)
  have "\<bar>p - x\<bar> = real i * \<bar>f - q\<bar>"
    using i by (simp add: p_def x_def abs_mult flip: right_diff_distrib)
  also have "\<dots> \<le> real i * (q * eps)" using e1 i by (intro mult_left_mono) simp_all
  finally have e3: "\<bar>p - x\<bar> \<le> x * eps" by (simp add: x_def mult.assoc)
  have eps: "0 < eps" "eps \<le> 1" by (simp_all add: eps_def)
  from e3 have "p \<le> x + x * eps" by linarith
  also have "\<dots> \<le> x + x * 1" using x eps by (intro add_left_mono mult_left_mono) simp_all
  finally have "p \<le> 2 * x" by simp
  then have "p * eps \<le> 2 * x * eps" using eps by (intro mult_right_mono) simp_all
  with e2 e3 have "\<bar>dbl p - x\<bar> \<le> 3 * x * eps" by linarith
  moreover have "x \<le> 2 ^ 32"
  proof -
    from assms(4) have "real i \<le> real N - 1" by linarith
    then have "real i * q \<le> (real N - 1) * q" using q by (intro mult_right_mono) simp_all
    also have "\<dots> = real L - 1" using nm by (simp add: q_def)
    also have "\<dots> \<le> 2 ^ 32"
    proof -
      from assms(3) have "real L \<le> 2 ^ 32" by (metis of_nat_le_iff of_nat_numeral of_nat_power)
      then show ?thesis by simp
    qed
    finally show ?thesis by (simp add: x_def)
  qed
  then have "3 * x * eps \<le> 3 * 2 ^ 32 * eps" using eps by (intro mult_right_mono mult_left_mono) simp_all
  moreover have "3 * 2 ^ 32 * eps \<le> 1 / 2 ^ 19" by (simp add: eps_def)
  ultimately have "\<bar>dbl p - x\<bar> \<le> 1 / 2 ^ 19" by linarith
  then show ?thesis by (simp add: p_def x_def f_def q_def)
qed

lemma sample_index:
  assumes "2 \<le> N" "N < L" "L \<le> 2 ^ 32" "i < N"
  defines "g \<equiv> dbl (real i * dbl ((real L - 1) / (real N - 1)))"
  shows "0 \<le> \<lfloor>g + 1 / 2\<rfloor>" and "nat \<lfloor>g + 1 / 2\<rfloor> < L"
    and "\<bar>real (nat \<lfloor>g + 1 / 2\<rfloor>) - real i * (real L - 1) / (real N - 1)\<bar> \<le> 1 / 2 + 1 / 2 ^ 19"
    and "i = 0 \<Longrightarrow> nat \<lfloor>g + 1 / 2\<rfloor> = 0"
    and "i = N - 1 \<Longrightarrow> nat \<lfloor>g + 1 / 2\<rfloor> = L - 1"
proof -
  define x where "x = real i * (real L - 1) / (real N - 1)"
  define m where "m = \<lfloor>g + 1 / 2\<rfloor>"
  define rm where "rm = (of_int m :: real)"
  from assms have nm: "0 < real N - 1" and lm: "0 < real L - 1" by simp_all
  have err: "\<bar>g - x\<bar> \<le> 1 / 2 ^ 19"
    unfolding g_def x_def by (rule sample_product_error [OF assms(1-4)])
  have "0 \<le> (real L - 1) / (real N - 1)" using nm lm by simp
  then have "0 \<le> real i * dbl ((real L - 1) / (real N - 1))"
    by (intro mult_nonneg_nonneg dbl_nonneg) simp_all
  then have g0: "0 \<le> g" unfolding g_def by (rule dbl_nonneg)
  then have "0 \<le> g + 1 / 2" by simp
  then have m0: "0 \<le> m" unfolding m_def by (simp only: zero_le_floor)
  then show "0 \<le> \<lfloor>g + 1 / 2\<rfloor>" by (simp only: m_def)
  have lo: "rm \<le> g + 1 / 2" unfolding rm_def m_def by (rule of_int_floor_le)
  have hi: "g + 1 / 2 < rm + 1" unfolding rm_def m_def by (rule real_of_int_floor_add_one_gt)
  have "real i \<le> real N - 1" using assms(4) by linarith
  then have "real i * (real L - 1) \<le> (real N - 1) * (real L - 1)"
    using lm by (intro mult_right_mono) simp_all
  then have xle: "x \<le> real L - 1"
    unfolding x_def using nm by (simp add: pos_divide_le_eq mult.commute)
  have small: "(1::real) / 2 ^ 19 < 1 / 2" by simp
  from err xle small lo have "rm < real L" by linarith
  then have "m < int L" unfolding rm_def by simp
  with m0 have "nat m < L" by simp
  then show "nat \<lfloor>g + 1 / 2\<rfloor> < L" by (simp only: m_def)
  have "real (nat m) = rm" using m0 by (simp add: rm_def)
  moreover from err lo hi have "\<bar>rm - x\<bar> \<le> 1 / 2 + 1 / 2 ^ 19" by linarith
  ultimately have "\<bar>real (nat m) - x\<bar> \<le> 1 / 2 + 1 / 2 ^ 19" by simp
  then show "\<bar>real (nat \<lfloor>g + 1 / 2\<rfloor>) - real i * (real L - 1) / (real N - 1)\<bar>
      \<le> 1 / 2 + 1 / 2 ^ 19"
    by (simp only: m_def x_def)
  show "nat \<lfloor>g + 1 / 2\<rfloor> = 0" if "i = 0"
    using that by (simp add: g_def)
  show "nat \<lfloor>g + 1 / 2\<rfloor> = L - 1" if "i = N - 1"
  proof -
    from that assms have "real i = real N - 1" by (simp add: of_nat_diff)
    then have "x = real L - 1" using nm by (simp add: x_def)
    with err small lo hi have "real L - 2 < rm" "rm < real L" by linarith+
    then have "int L - 2 < m" "m < int L" unfolding rm_def by linarith+
    then have "m = int L - 1" by simp
    then have "nat m = L - 1" by simp
    then show ?thesis by (simp only: m_def)
  qed
qed

lemma sampleRoutePoints_long:
  assumes "2 \<le> sampleCount" "sampleCount < length path" "length path \<le> 2 ^ 32"
  shows "sampleRoutePoints path sampleCount
     = map (\<lambda>k. js_index path (js_round (js_mul (Fin (real k))
              (js_div (js_sub (Fin (real (length path))) (Fin 1))
                      (js_sub (Fin (real sampleCount)) (Fin 1))))))
           [0..<sampleCount]"
  using assms by (simp add: sampleRoutePoints_def Let_def sample_loop_map)

lemma sample_element:
  assumes "2 \<le> sampleCount" "sampleCount < length path" "length path \<le> 2 ^ 32" "i < sampleCount"
  defines "index \<equiv> nat \<lfloor>dbl (real i * dbl ((real (length path) - 1) / (real sampleCount - 1))) + 1 / 2\<rfloor>"
  shows "js_round (js_mul (Fin (real i))
           (js_div (js_sub (Fin (real (length path))) (Fin 1))
                   (js_sub (Fin (real sampleCount)) (Fin 1)))) = Fin (real index)"
    and "sampleRoutePoints path sampleCount ! i = Some (path ! index)"
proof -
  note idx = sample_index [OF assms(1-4)]
  show r: "js_round (js_mul (Fin (real i))
           (js_div (js_sub (Fin (real (length path))) (Fin 1))
                   (js_sub (Fin (real sampleCount)) (Fin 1)))) = Fin (real index)"
    using idx(1) by (simp add: sample_interval [OF assms(1-3)] index_def)
  have "sampleRoutePoints path sampleCount ! i = js_index path (Fin (real index))"
    using assms(4) by (simp add: sampleRoutePoints_long [OF assms(1-3)] r)
  also have "\<dots> = Some (path ! index)"
  proof (rule js_index_nat)
    show "index < length path" using idx(2) by (simp add: index_def)
  qed
  finally show "sampleRoutePoints path sampleCount ! i = Some (path ! index)" .
qed

text \<open>
  C1, as amended: for every path of length \<open>L\<close> (at most \<open>2^32\<close>, the bound on the
  length of an array) and every sample count \<open>N >= 2\<close>, \<open>sampleRoutePoints\<close> returns a
  sequence of length \<open>min(L, N)\<close>; for a non-empty path its first element is the first
  coordinate and its last element the last coordinate of the path; when \<open>L <= N\<close> it is
  the path unchanged, and when \<open>L > N\<close> its element \<open>i\<close> is the coordinate at the index
  \<open>Math.round(i * interval)\<close>, with \<open>interval = (L - 1) / (N - 1)\<close> and the product
  both rounded to doubles; that index lies within the path and differs from the exact
  value \<open>i * (L - 1) / (N - 1)\<close> by at most \<open>1/2 + 2^-19\<close>.
\<close>

theorem sampleRoutePoints_samples:
  assumes "2 \<le> sampleCount" and "length path \<le> 2 ^ 32"
  shows "length (sampleRoutePoints path sampleCount) = min (length path) sampleCount
       \<and> (path \<noteq> [] \<longrightarrow>
            hd (sampleRoutePoints path sampleCount) = Some (hd path)
            \<and> last (sampleRoutePoints path sampleCount) = Some (last path))
       \<and> (length path \<le> sampleCount \<longrightarrow> sampleRoutePoints path sampleCount = map Some path)
       \<and> (sampleCount < length path \<longrightarrow>
            (\<forall>i<sampleCount. \<exists>index<length path.
               js_round (js_mul (Fin (real i))
                 (js_div (js_sub (Fin (real (length path))) (Fin 1))
                         (js_sub (Fin (real sampleCount)) (Fin 1)))) = Fin (real index)
               \<and> sampleRoutePoints path sampleCount ! i = Some (path ! index)
               \<and> \<bar>real index - real i * (real (length path) - 1) / (real sampleCount - 1)\<bar>
                   \<le> 1 / 2 + 1 / 2 ^ 19))"
proof (cases "length path \<le> sampleCount")
  case True
  then have "sampleRoutePoints path sampleCount = map Some path"
    by (simp add: sampleRoutePoints_def)
  with True show ?thesis by (simp add: hd_map last_map)
next
  case False
  then have long: "sampleCount < length path" by simp
  let ?idx = "\<lambda>i. nat \<lfloor>dbl (real i * dbl ((real (length path) - 1) / (real sampleCount - 1))) + 1 / 2\<rfloor>"
  have len: "length (sampleRoutePoints path sampleCount) = sampleCount"
    by (simp add: sampleRoutePoints_long [OF assms(1) long assms(2)])
  have ne: "sampleRoutePoints path sampleCount \<noteq> []" using len assms by auto
  have pne: "path \<noteq> []" using long by auto
  have i0: "0 < sampleCount" and il: "sampleCount - 1 < sampleCount" using assms by simp_all
  have "hd (sampleRoutePoints path sampleCount) = sampleRoutePoints path sampleCount ! 0"
    using ne by (simp add: hd_conv_nth)
  also have "\<dots> = Some (path ! ?idx 0)" by (rule sample_element(2) [OF assms(1) long assms(2) i0])
  also have "?idx 0 = 0" by (rule sample_index(4) [OF assms(1) long assms(2) i0 refl])
  finally have h: "hd (sampleRoutePoints path sampleCount) = Some (hd path)"
    using pne by (simp add: hd_conv_nth)
  have "last (sampleRoutePoints path sampleCount)
      = sampleRoutePoints path sampleCount ! (sampleCount - 1)"
    using ne len by (simp add: last_conv_nth)
  also have "\<dots> = Some (path ! ?idx (sampleCount - 1))"
    by (rule sample_element(2) [OF assms(1) long assms(2) il])
  also have "?idx (sampleCount - 1) = length path - 1"
    by (rule sample_index(5) [OF assms(1) long assms(2) il refl])
  finally have l: "last (sampleRoutePoints path sampleCount) = Some (last path)"
    using pne by (simp add: last_conv_nth)
  have b: "\<forall>i<sampleCount. \<exists>index<length path.
               js_round (js_mul (Fin (real i))
                 (js_div (js_sub (Fin (real (length path))) (Fin 1))
                         (js_sub (Fin (real sampleCount)) (Fin 1)))) = Fin (real index)
               \<and> sampleRoutePoints path sampleCount ! i = Some (path ! index)
               \<and> \<bar>real index - real i * (real (length path) - 1) / (real sampleCount - 1)\<bar>
                   \<le> 1 / 2 + 1 / 2 ^ 19"
  proof (intro allI impI)
    fix i assume i: "i < sampleCount"
    from sample_index(2,3) [OF assms(1) long assms(2) i]
      sample_element [OF assms(1) long assms(2) i]
    show "\<exists>index<length path.
               js_round (js_mul (Fin (real i))
                 (js_div (js_sub (Fin (real (length path))) (Fin 1))
                         (js_sub (Fin (real sampleCount)) (Fin 1)))) = Fin (real index)
               \<and> sampleRoutePoints path sampleCount ! i = Some (path ! index)
               \<and> \<bar>real index - real i * (real (length path) - 1) / (real sampleCount - 1)\<bar>
                   \<le> 1 / 2 + 1 / 2 ^ 19"
      by blast
  qed
  from len h l b long show ?thesis by simp
qed

lemma sample_values:
  "dbl (7 * dbl (61 / 14)) = 8584986789675007 / 281474976710656"
  by code_simp

text \<open>
  The claim C1 as stated fails on its index formula: for a path of 62 points and 15
  samples, position 7 holds the point at index 30, because \<open>7 * (61 / 14)\<close> is
  30.499999999999996 on doubles, while \<open>round(7 * 61 / 14) = round(30.5)\<close> is 31.
\<close>

theorem sampleRoutePoints_index_counterexample:
  "sampleRoutePoints sixty_two_points 15 ! 7 = Some 30
   \<and> sixty_two_points
        ! nat \<lfloor>real 7 * (real (length sixty_two_points) - 1) / (real 15 - 1) + 1 / 2\<rfloor> = 31
   \<and> sampleRoutePoints sixty_two_points 15 ! 7
       \<noteq> Some (sixty_two_points
            ! nat \<lfloor>real 7 * (real (length sixty_two_points) - 1) / (real 15 - 1) + 1 / 2\<rfloor>)"
proof -
  have a: "sampleRoutePoints sixty_two_points 15 ! 7 = Some 30"
    by (simp add: sampleRoutePoints_def sixty_two_points_def Let_def sample_loop_map
        js_sub_def sample_values)
  have "\<lfloor>real 7 * (real (length sixty_two_points) - 1) / (real 15 - 1) + 1 / 2\<rfloor> = 31"
    by (simp add: sixty_two_points_def)
  then have b: "sixty_two_points
        ! nat \<lfloor>real 7 * (real (length sixty_two_points) - 1) / (real 15 - 1) + 1 / 2\<rfloor> = 31"
    by (simp add: sixty_two_points_def)
  from a b show ?thesis by simp
qed

lemma ten_points_sampled:
  "sampleRoutePoints ten_points 4 = [Some 0, Some 3, Some 6, Some 9]"
proof -
  have "[0..<4] = [0, 1, 2, 3::nat]" by (simp add: upt_rec)
  then show ?thesis
    by (simp add: sampleRoutePoints_def ten_points_def Let_def sample_loop_map js_sub_def)
qed

theorem sampleRoutePoints_samples_witness:
  "(2::nat) \<le> 4 \<and> length ten_points \<le> 2 ^ 32
   \<and> sampleRoutePoints ten_points 4 = [Some 0, Some 3, Some 6, Some 9]
   \<and> length (sampleRoutePoints ten_points 4) = min (length ten_points) 4
   \<and> hd (sampleRoutePoints ten_points 4) = Some (hd ten_points)
   \<and> last (sampleRoutePoints ten_points 4) = Some (last ten_points)
   \<and> (\<exists>index. index < length ten_points
         \<and> sampleRoutePoints ten_points 4 ! 2 = Some (ten_points ! index)
         \<and> \<bar>real index - real 2 * (real (length ten_points) - 1) / (real 4 - 1)\<bar>
             \<le> 1 / 2 + 1 / 2 ^ 19)
   \<and> sampleRoutePoints ten_points 12 = map Some ten_points"
proof -
  have t: "(2::nat) \<le> 4" and t12: "(2::nat) \<le> 12" by simp_all
  have ne: "ten_points \<noteq> []" and le: "length ten_points \<le> 12"
    and lt: "4 < length ten_points" and bound: "length ten_points \<le> 2 ^ 32"
    by (simp_all add: ten_points_def)
  from sampleRoutePoints_samples [OF t bound] ne
  have a: "length (sampleRoutePoints ten_points 4) = min (length ten_points) 4"
    "hd (sampleRoutePoints ten_points 4) = Some (hd ten_points)"
    "last (sampleRoutePoints ten_points 4) = Some (last ten_points)"
    by simp_all
  from sampleRoutePoints_samples [OF t bound] lt
  have "\<forall>i<4. \<exists>index<length ten_points.
      js_round (js_mul (Fin (real i))
        (js_div (js_sub (Fin (real (length ten_points))) (Fin 1))
                (js_sub (Fin (real (4::nat))) (Fin 1)))) = Fin (real index)
      \<and> sampleRoutePoints ten_points 4 ! i = Some (ten_points ! index)
      \<and> \<bar>real index - real i * (real (length ten_points) - 1) / (real (4::nat) - 1)\<bar>
          \<le> 1 / 2 + 1 / 2 ^ 19"
    by blast
  moreover have "(2::nat) < 4" by simp
  ultimately have c: "\<exists>index. index < length ten_points
         \<and> sampleRoutePoints ten_points 4 ! 2 = Some (ten_points ! index)
         \<and> \<bar>real index - real 2 * (real (length ten_points) - 1) / (real 4 - 1)\<bar>
             \<le> 1 / 2 + 1 / 2 ^ 19"
    by blast
  from sampleRoutePoints_samples [OF t12 bound] le
  have b: "sampleRoutePoints ten_points 12 = map Some ten_points" by simp
  from t bound a b c ten_points_sampled show ?thesis by blast
qed

end
